theory Spec2Isabelle
  imports Main "HOL-Library.Word"
begin

section \<open>The WebApp component\<close>

subsection \<open>Values, bridge calls and the observable effects\<close>

text \<open>
  A string of the program is a \<open>string\<close> wherever only its ASCII content matters
  (method names, URLs, colours). The argument of \<open>sendData\<close> is kept as what a
  JavaScript string is, a sequence of UTF-16 code units, because the size the code
  checks is the size of its UTF-8 encoding.
\<close>

type_synonym jsstring = "16 word list"

datatype jsval = Str string | Flag bool | Text jsstring

type_synonym payload = "(string \<times> jsval) list"

text \<open>A version is the tuple of numbers of a dotted version string (spec, section 3).\<close>

type_synonym version = "nat list"

text \<open>
  Everything a method of the component does to the outside, in the order it does it:
  a call of the injected \<open>postEvent\<close>, \<open>window.open\<close>, an assignment to
  \<open>window.location.href\<close>, a write of a field of the component's state, and the
  notification of one listener of the component's emitter (listener, field, value).
\<close>

datatype effect =
    Posted string payload
  | WindowOpen string string
  | LocationHref string
  | StateSet string string
  | Notified nat string string

datatype error =
    InvalidURL
  | NotAllowedHostname string
  | IncorrectHostname string
  | IncorrectPathname
  | IncorrectSize nat

text \<open>
  A listener that \<open>request\<close> holds on the stream of incoming events: the promise it
  settles, the event name it waits for and its capture predicate.
\<close>

datatype capture = CaptureAll | CaptureSlug string

record pending_request =
  promise_id :: nat
  expected :: string
  captured_by :: capture

record world =
  headerColor :: string
  backgroundColor :: string
  currentVersion :: version
  currentPlatform :: string
  listeners :: "nat list"
  trace :: "effect list"
  pending :: "pending_request list"
  settled :: "(nat \<times> payload) list"
  next_promise :: nat

text \<open>What \<open>new URL(...)\<close> gives: the three fields the code reads.\<close>

record url =
  hostname :: string
  pathname :: string
  search :: string

text \<open>
  The functions the component imports from files that are not part of the sources at
  hand, taken as parameters: \<open>supports\<close> of the bridge package, \<open>formatURL\<close>
  (\<open>None\<close> when it throws), the browser's \<open>new URL\<close> (\<open>None\<close> when it throws on
  a malformed URL) and \<open>isRGB\<close> of the colours package.
\<close>

record env =
  supports :: "string \<Rightarrow> version \<Rightarrow> bool"
  formatURL :: "string \<Rightarrow> string option"
  newURL :: "string \<Rightarrow> url option"
  isRGB :: "string \<Rightarrow> bool"

text \<open>The calls issued to the bridge so far, oldest first.\<close>

fun posted :: "effect list \<Rightarrow> (string \<times> payload) list" where
  "posted [] = []"
| "posted (Posted m p # es) = (m, p) # posted es"
| "posted (e # es) = posted es"

definition postEvent :: "string \<Rightarrow> payload \<Rightarrow> world \<Rightarrow> world" where
  "postEvent m p w = w\<lparr>trace := trace w @ [Posted m p]\<rparr>"

subsection \<open>sendData\<close>

text \<open>
  \<open>new Blob([data]).size\<close>: the number of bytes of the UTF-8 encoding of the string.
  A code unit below 0x80 takes one byte, below 0x800 two; a high surrogate followed by a
  low surrogate is one code point of four bytes; any other code unit, a lone surrogate
  included (it is replaced by U+FFFD), takes three.
\<close>

fun blob_size :: "jsstring \<Rightarrow> nat" where
  "blob_size [] = 0"
| "blob_size [u] = (if u < 0x80 then 1 else if u < 0x800 then 2 else 3)"
| "blob_size (u # v # us) =
     (if u < 0x80 then 1 + blob_size (v # us)
      else if u < 0x800 then 2 + blob_size (v # us)
      else if 0xD800 \<le> u \<and> u \<le> 0xDBFF \<and> 0xDC00 \<le> v \<and> v \<le> 0xDFFF
        then 4 + blob_size us
      else 3 + blob_size (v # us))"

definition sendData :: "jsstring \<Rightarrow> world \<Rightarrow> (error + unit) \<times> world" where
  "sendData data w =
     (let size = blob_size data in
      if size = 0 \<or> size > 4096 then (Inl (IncorrectSize size), w)
      else (Inr (), postEvent ''web_app_data_send'' [(''data'', Text data)] w))"

subsection \<open>Versions\<close>

text \<open>
  Modelled from the spec: \<open>compareVersions\<close> of the package \<open>@tma.js/utils\<close> is not in
  the sources. Section 3: comparison is lexicographic over the tuple, missing trailing
  components treated as zero. The result is 1, 0 or -1 as the first version is greater
  than, equal to or less than the second.
\<close>

fun compareVersions :: "version \<Rightarrow> version \<Rightarrow> int" where
  "compareVersions [] [] = 0"
| "compareVersions (a # as) [] = (if a = 0 then compareVersions as [] else 1)"
| "compareVersions [] (b # bs) = (if b = 0 then compareVersions [] bs else - 1)"
| "compareVersions (a # as) (b # bs) =
     (if a = b then compareVersions as bs else if a > b then 1 else - 1)"

definition isVersionAtLeast :: "world \<Rightarrow> version \<Rightarrow> bool" where
  "isVersionAtLeast w v \<longleftrightarrow> compareVersions v (currentVersion w) \<ge> 0"

text \<open>
  The order of section 3 written out: the component at place \<open>i\<close>, zero past the end,
  and \<open>a\<close> below \<open>b\<close> when they first differ at a place where \<open>a\<close> is smaller.
\<close>

definition component :: "version \<Rightarrow> nat \<Rightarrow> nat" where
  "component v i = (if i < length v then v ! i else 0)"

definition version_less :: "version \<Rightarrow> version \<Rightarrow> bool" where
  "version_less a b \<longleftrightarrow>
     (\<exists>i. component a i < component b i \<and> (\<forall>j. j < i \<longrightarrow> component a j = component b j))"

subsection \<open>The supports table of the constructor\<close>

definition supports_schema :: "(string \<times> string) list" where
  "supports_schema =
     [(''openInvoice'', ''web_app_open_invoice''),
      (''readTextFromClipboard'', ''web_app_read_text_from_clipboard''),
      (''setHeaderColor'', ''web_app_set_header_color''),
      (''setBackgroundColor'', ''web_app_set_background_color''),
      (''requestPhoneAccess'', ''web_app_request_phone''),
      (''requestWriteAccess'', ''web_app_request_write_access'')]"

text \<open>
  Modelled from the spec: \<open>createSupportsFunc\<close> (\<open>../../supports.js\<close>) is not in the
  sources. Section 4.2: look up the capability's required bridge event and answer whether
  the current host version supports it, as a boolean, never by throwing.
\<close>

definition webapp_supports :: "env \<Rightarrow> world \<Rightarrow> string \<Rightarrow> bool" where
  "webapp_supports env w name =
     (case map_of supports_schema name of
        Some m \<Rightarrow> supports env m (currentVersion w)
      | None \<Rightarrow> False)"

subsection \<open>openLink and openTelegramLink\<close>

definition openLink :: "env \<Rightarrow> string \<Rightarrow> bool option \<Rightarrow> world \<Rightarrow> (error + unit) \<times> world" where
  "openLink env u tryInstantView w =
     (case formatURL env u of
        None \<Rightarrow> (Inl InvalidURL, w)
      | Some formattedUrl \<Rightarrow>
          if \<not> supports env ''web_app_open_link'' (currentVersion w)
          then (Inr (), w\<lparr>trace := trace w @ [WindowOpen formattedUrl ''_blank'']\<rparr>)
          else (Inr (),
                postEvent ''web_app_open_link''
                  ((''url'', Str formattedUrl) #
                   (case tryInstantView of
                      Some b \<Rightarrow> [(''try_instant_view'', Flag b)]
                    | None \<Rightarrow> []))
                  w))"

definition openTelegramLink :: "env \<Rightarrow> string \<Rightarrow> world \<Rightarrow> (error + unit) \<times> world" where
  "openTelegramLink env u w =
     (case formatURL env u of
        None \<Rightarrow> (Inl InvalidURL, w)
      | Some formattedUrl \<Rightarrow>
          (case newURL env formattedUrl of
             None \<Rightarrow> (Inl InvalidURL, w)
           | Some parsed \<Rightarrow>
               if hostname parsed \<noteq> ''t.me''
               then (Inl (NotAllowedHostname (hostname parsed)), w)
               else if \<not> supports env ''web_app_open_tg_link'' (currentVersion w)
               then (Inr (), w\<lparr>trace := trace w @ [LocationHref u]\<rparr>)
               else (Inr (),
                     postEvent ''web_app_open_tg_link''
                       [(''path_full'', Str (pathname parsed @ search parsed))] w)))"

subsection \<open>Requests and openInvoice\<close>

text \<open>
  The capture predicates: the one openInvoice passes,
  \<^verbatim>\<open>({ slug: eventSlug }) => slug === eventSlug\<close>, and the one that takes every
  event.
\<close>

fun captures :: "capture \<Rightarrow> payload \<Rightarrow> bool" where
  "captures CaptureAll p = True"
| "captures (CaptureSlug slug) p = (map_of p ''slug'' = Some (Str slug))"

text \<open>
  Modelled from the spec: \<open>request\<close> of the bridge package is not in the sources.
  Section 4.1: subscribe to the expected response event and emit the request through
  the bridge. The listener stays until an event settles the request; openInvoice passes
  no timeout, so none is modelled.
\<close>

definition request :: "string \<Rightarrow> payload \<Rightarrow> string \<Rightarrow> capture \<Rightarrow> world \<Rightarrow> nat \<times> world" where
  "request m p expectedResponseEvent cap w =
     (let i = next_promise w in
      (i, (postEvent m p w)
            \<lparr>pending := pending w @
               [\<lparr>promise_id = i, expected = expectedResponseEvent, captured_by = cap\<rparr>],
             next_promise := Suc i\<rparr>))"

text \<open>
  Modelled from the spec: the listener of \<open>request\<close>, same package. Section 4.1: upon
  receiving any event of the expected name invoke the capture predicate; if it returns
  true, unsubscribe and settle the pending operation with the response payload; if
  false, keep waiting.
\<close>

definition claimed :: "string \<Rightarrow> payload \<Rightarrow> pending_request \<Rightarrow> bool" where
  "claimed name p r \<longleftrightarrow> expected r = name \<and> captures (captured_by r) p"

text \<open>
  Modelled from the spec: the delivery by the host of the event \<open>name\<close> with payload
  \<open>p\<close> to the listeners of \<open>request\<close>, in registration order (sections 4.1 and 5).
\<close>

definition receive :: "string \<Rightarrow> payload \<Rightarrow> world \<Rightarrow> world" where
  "receive name p w =
     w\<lparr>pending := filter (\<lambda>r. \<not> claimed name p r) (pending w),
       settled := settled w @
         map (\<lambda>r. (promise_id r, p)) (filter (claimed name p) (pending w))\<rparr>"

text \<open>
  The pathname pattern of openInvoice, \<^verbatim>\<open>^\/(\$|invoice\/)([A-Za-z0-9\-_=]+)$\<close>: the
  second group, when the whole pathname matches.
\<close>

definition slug_char :: "char \<Rightarrow> bool" where
  "slug_char c =
     (let n = (of_char c :: nat) in
      (65 \<le> n \<and> n \<le> 90) \<or> (97 \<le> n \<and> n \<le> 122) \<or> (48 \<le> n \<and> n \<le> 57) \<or>
      n = 45 \<or> n = 95 \<or> n = 61)"

definition slug_of :: "string \<Rightarrow> string option" where
  "slug_of s = (if s \<noteq> [] \<and> list_all slug_char s then Some s else None)"

definition match_invoice :: "string \<Rightarrow> string option" where
  "match_invoice p =
     (if take 2 p = ''/$'' then slug_of (drop 2 p)
      else if take 9 p = ''/invoice/'' then slug_of (drop 9 p)
      else None)"

text \<open>
  What an async method hands back: a promise already rejected with the error thrown
  before the first \<open>await\<close>, or one that waits for the request of the given number.
\<close>

datatype promise = Rejected error | Awaiting nat

definition openInvoice :: "env \<Rightarrow> string \<Rightarrow> world \<Rightarrow> promise \<times> world" where
  "openInvoice env u w =
     (case formatURL env u of
        None \<Rightarrow> (Rejected InvalidURL, w)
      | Some formattedUrl \<Rightarrow>
          (case newURL env formattedUrl of
             None \<Rightarrow> (Rejected InvalidURL, w)
           | Some parsed \<Rightarrow>
               if hostname parsed \<noteq> ''t.me''
               then (Rejected (IncorrectHostname (hostname parsed)), w)
               else (case match_invoice (pathname parsed) of
                       None \<Rightarrow> (Rejected IncorrectPathname, w)
                     | Some slug \<Rightarrow>
                         (let (i, w') = request ''web_app_open_invoice'' [(''slug'', Str slug)]
                                          ''invoice_closed'' (CaptureSlug slug) w
                          in (Awaiting i, w')))))"

text \<open>
  The value the promise of openInvoice has in a world: nothing while its request is
  unsettled, then \<open>result.status\<close> of the payload that settled it.
\<close>

definition invoice_result :: "world \<Rightarrow> nat \<Rightarrow> jsval option option" where
  "invoice_result w i = map_option (\<lambda>p. map_of p ''status'') (map_of (settled w) i)"

text \<open>What the program and its host do after a call: more calls, and incoming events.\<close>

datatype action = OpenInvoice string | Receive string payload

fun act :: "env \<Rightarrow> action \<Rightarrow> world \<Rightarrow> world" where
  "act env (OpenInvoice u) w = snd (openInvoice env u w)"
| "act env (Receive name p) w = receive name p w"

definition run :: "env \<Rightarrow> action list \<Rightarrow> world \<Rightarrow> world" where
  "run env acts w = fold (act env) acts w"

text \<open>The first incoming \<open>invoice_closed\<close> event of a run that carries the slug.\<close>

fun first_closed :: "string \<Rightarrow> action list \<Rightarrow> payload option" where
  "first_closed slug [] = None"
| "first_closed slug (OpenInvoice u # acts) = first_closed slug acts"
| "first_closed slug (Receive name p # acts) =
     (if name = ''invoice_closed'' \<and> map_of p ''slug'' = Some (Str slug) then Some p
      else first_closed slug acts)"

text \<open>
  Promise numbers are handed out in order: in a world the program can reach, every
  pending and every settled request has a number below the next one to be given.
\<close>

definition fresh_ids :: "world \<Rightarrow> bool" where
  "fresh_ids w \<longleftrightarrow>
     list_all (\<lambda>r. promise_id r < next_promise w) (pending w) \<and>
     list_all (\<lambda>s. fst s < next_promise w) (settled w)"

subsection \<open>The colour mutators\<close>

text \<open>
  Modelled from the spec: the \<open>State\<close> class (\<open>../../state\<close>) is not in the sources.
  Section 3: mutation goes through a single state-update entry point that applies the
  new value and emits a change event carrying the field name and the new value; section
  4.3: emit calls the listeners in registration order.
\<close>

definition state_set :: "string \<Rightarrow> string \<Rightarrow> world \<Rightarrow> world" where
  "state_set key v w =
     (let w1 = (if key = ''headerColor'' then w\<lparr>headerColor := v\<rparr>
                else if key = ''backgroundColor'' then w\<lparr>backgroundColor := v\<rparr>
                else w)
      in w1\<lparr>trace := trace w1 @ StateSet key v # map (\<lambda>l. Notified l key v) (listeners w1)\<rparr>)"

definition setHeaderColor :: "env \<Rightarrow> string \<Rightarrow> world \<Rightarrow> world" where
  "setHeaderColor env color w =
     state_set ''headerColor'' color
       (postEvent ''web_app_set_header_color''
          (if isRGB env color then [(''color'', Str color)] else [(''color_key'', Str color)]) w)"

definition setBackgroundColor :: "env \<Rightarrow> string \<Rightarrow> world \<Rightarrow> world" where
  "setBackgroundColor env color w =
     state_set ''backgroundColor'' color
       (postEvent ''web_app_set_background_color'' [(''color'', Str color)] w)"

text \<open>
  The bridge calls a listener finds issued when it is notified: for every notification in
  the trace, the calls posted before it.
\<close>

fun observed :: "effect list \<Rightarrow> effect list \<Rightarrow> (nat \<times> (string \<times> payload) list) list" where
  "observed before [] = []"
| "observed before (Notified l k v # es) =
     (l, posted before) # observed (before @ [Notified l k v]) es"
| "observed before (e # es) = observed (before @ [e]) es"

section \<open>initNavigator\<close>

text \<open>
  A listener of the navigator: the closure \<open>saveState\<close> of initNavigator for a storage
  key, or a listener of the application.
\<close>

datatype nav_listener = SaveState string | AppListener nat

text \<open>
  What \<open>JSON.parse\<close> returns: a JSON value, an object being its members, each key
  once.
  A value that may also be \<open>undefined\<close> is a \<open>json option\<close>.
\<close>

datatype json =
    JNull
  | JBool bool
  | JNum int
  | JStr string
  | JArr "json list"
  | JObj "(string \<times> json) list"

text \<open>
  Modelled from the spec: the \<open>BrowserNavigator\<close> class is not in the sources. Sections 3
  and 4.5: a navigator owns an ordered sequence of entries and a current index. They are
  kept as the values the program handed over, which nothing has checked to be an array
  and a number, or to be defined. It also has its options and the listeners registered
  with \<open>on\<close>, each under its event name.
\<close>

record 'o navigator =
  index :: "json option"
  history :: "json option"
  options :: "'o option"
  subscribed :: "(string \<times> nav_listener) list"

text \<open>
  The session storage, the calls of \<open>setItem\<close> in the order made, and the number of
  messages written with \<open>console.error\<close>.
\<close>

record browser =
  sessionStorage :: "string \<rightharpoonup> string"
  setItem_calls :: "(string \<times> string) list"
  console_errors :: nat

text \<open>
  What initNavigator takes from outside: \<open>isPageReload()\<close>; \<open>JSON.parse\<close> (\<open>None\<close>
  when it throws); \<open>JSON.stringify\<close> of the object made of an index and a history;
  which history, index and options the constructor of BrowserNavigator accepts without
  throwing; and the index and history that createBrowserNavigatorFromLocation derives
  from \<open>window.location\<close>.
\<close>

record 'o nav_env =
  isPageReload :: bool
  JSON_parse :: "string \<Rightarrow> json option"
  JSON_stringify :: "json option \<times> json option \<Rightarrow> string"
  accepts :: "json option \<Rightarrow> json option \<Rightarrow> 'o option \<Rightarrow> bool"
  fromLocation :: "'o option \<Rightarrow> json option \<times> json option"

text \<open>
  The destructuring \<^verbatim>\<open>const { index, history } = JSON.parse(stateRaw)\<close>. It throws
  on \<open>null\<close>. Otherwise each of the two names is read as a property: the field of an
  object that has it, and \<open>undefined\<close> for an object without the field and for a
  number, a string, a boolean or an array, none of which has a property of either name.
\<close>

fun property :: "string \<Rightarrow> json \<Rightarrow> json option" where
  "property name (JObj members) = map_of members name"
| "property name v = None"

definition destructure :: "json \<Rightarrow> (json option \<times> json option) option" where
  "destructure v =
     (if v = JNull then None else Some (property ''index'' v, property ''history'' v))"

text \<open>
  Modelled from the spec: the constructor of BrowserNavigator, not in the sources.
  Section 4.5: restoration reinstates the persisted index and entries verbatim, so the
  new navigator holds the history and index it is given; it has no listeners yet. The
  arguments the constructor refuses by throwing are those \<open>accepts\<close> excludes.
\<close>

definition BrowserNavigator ::
  "'o nav_env \<Rightarrow> json option \<Rightarrow> json option \<Rightarrow> 'o option \<Rightarrow> 'o navigator option" where
  "BrowserNavigator env h i opts =
     (if accepts env h i opts
      then Some \<lparr>index = i, history = h, options = opts, subscribed = []\<rparr>
      else None)"

text \<open>
  Modelled from the spec: createBrowserNavigatorFromLocation is not in the sources.
  Section 4.5: it derives the history from the current location; the result is a new
  navigator with what \<open>fromLocation\<close> gives.
\<close>

definition createBrowserNavigatorFromLocation ::
  "'o nav_env \<Rightarrow> 'o option \<Rightarrow> 'o navigator" where
  "createBrowserNavigatorFromLocation env opts =
     \<lparr>index = fst (fromLocation env opts), history = snd (fromLocation env opts),
      options = opts, subscribed = []\<rparr>"

definition instantiate ::
  "'o nav_env \<Rightarrow> string \<Rightarrow> 'o option \<Rightarrow> browser \<Rightarrow> 'o navigator \<times> browser" where
  "instantiate env sessionStorageKey opts b =
     (if isPageReload env then
        (case sessionStorage b sessionStorageKey of
           None \<Rightarrow> (createBrowserNavigatorFromLocation env opts, b)
         | Some stateRaw \<Rightarrow>
             if stateRaw = [] then (createBrowserNavigatorFromLocation env opts, b)
             else
               (case JSON_parse env stateRaw of
                  None \<Rightarrow>
                    (createBrowserNavigatorFromLocation env opts,
                     b\<lparr>console_errors := Suc (console_errors b)\<rparr>)
                | Some parsed \<Rightarrow>
                    (case destructure parsed of
                       None \<Rightarrow>
                         (createBrowserNavigatorFromLocation env opts,
                          b\<lparr>console_errors := Suc (console_errors b)\<rparr>)
                     | Some (i, h) \<Rightarrow>
                         (case BrowserNavigator env h i opts of
                            None \<Rightarrow>
                              (createBrowserNavigatorFromLocation env opts,
                               b\<lparr>console_errors := Suc (console_errors b)\<rparr>)
                          | Some nav \<Rightarrow> (nav, b)))))
      else (createBrowserNavigatorFromLocation env opts, b))"

definition saveState ::
  "'o nav_env \<Rightarrow> string \<Rightarrow> 'o navigator \<Rightarrow> browser \<Rightarrow> browser" where
  "saveState env sessionStorageKey nav b =
     (let text = JSON_stringify env (index nav, history nav) in
      b\<lparr>sessionStorage := (sessionStorage b)(sessionStorageKey \<mapsto> text),
        setItem_calls := setItem_calls b @ [(sessionStorageKey, text)]\<rparr>)"

text \<open>
  Modelled from the spec: \<open>on\<close> of the navigator (BrowserNavigator class, not in the
  sources). Section 4.3: it registers the listener for the event, after those already
  registered.
\<close>

definition nav_on ::
  "string \<Rightarrow> nav_listener \<Rightarrow> 'o navigator \<Rightarrow> 'o navigator" where
  "nav_on event l nav = nav\<lparr>subscribed := subscribed nav @ [(event, l)]\<rparr>"

text \<open>
  What a listener does when called: \<open>saveState\<close> as initNavigator defines it; a listener
  of the application is opaque and leaves the session storage alone.
\<close>

fun call_listener ::
  "'o nav_env \<Rightarrow> 'o navigator \<Rightarrow> nav_listener \<Rightarrow> browser \<Rightarrow> browser" where
  "call_listener env nav (SaveState k) b = saveState env k nav b"
| "call_listener env nav (AppListener n) b = b"

text \<open>
  Modelled from the spec: the emission of an event by the navigator (BrowserNavigator
  class, not in the sources). Section 4.3: emit calls the listeners of the event in
  registration order.
\<close>

definition nav_emit ::
  "'o nav_env \<Rightarrow> string \<Rightarrow> 'o navigator \<Rightarrow> browser \<Rightarrow> browser" where
  "nav_emit env event nav b =
     fold (call_listener env nav) (map snd (filter (\<lambda>s. fst s = event) (subscribed nav))) b"

definition initNavigator ::
  "'o nav_env \<Rightarrow> string \<Rightarrow> 'o option \<Rightarrow> browser \<Rightarrow> 'o navigator \<times> browser" where
  "initNavigator env sessionStorageKey opts b =
     (let (nav0, b0) = instantiate env sessionStorageKey opts b;
          nav = nav_on ''change'' (SaveState sessionStorageKey) nav0
      in (nav, saveState env sessionStorageKey nav b0))"

text \<open>
  The life of the navigator after initNavigator has returned it: it moves to a new index
  and history and emits \<open>change\<close>, or the application registers one more listener.
\<close>

datatype nav_action = Change "json option" "json option" | Subscribe string nat

fun nav_step ::
  "'o nav_env \<Rightarrow> nav_action \<Rightarrow> 'o navigator \<times> browser \<Rightarrow>
   'o navigator \<times> browser" where
  "nav_step env (Change i h) (nav, b) =
     (let nav' = nav\<lparr>index := i, history := h\<rparr> in (nav', nav_emit env ''change'' nav' b))"
| "nav_step env (Subscribe event n) (nav, b) = (nav_on event (AppListener n) nav, b)"

definition nav_run ::
  "'o nav_env \<Rightarrow> nav_action list \<Rightarrow> 'o navigator \<times> browser \<Rightarrow>
   'o navigator \<times> browser" where
  "nav_run env acts s = fold (nav_step env) acts s"

text \<open>The snapshots a run of actions passes through, one for each change.\<close>

fun changes :: "nav_action list \<Rightarrow> (json option \<times> json option) list" where
  "changes [] = []"
| "changes (Change i h # acts) = (i, h) # changes acts"
| "changes (Subscribe event n # acts) = changes acts"

text \<open>Whether a listener is a \<open>saveState\<close> closure of initNavigator.\<close>

fun is_saver :: "nav_listener \<Rightarrow> bool" where
  "is_saver (SaveState k) = True"
| "is_saver (AppListener n) = False"

section \<open>The mini-apps event emitter singleton\<close>

text \<open>
  The emitter that createMiniAppsEventEmitter returns, as the list of its live
  subscriptions, each an event name and the identity of a listener.
\<close>

type_synonym emitter = "(string \<times> nat) list"

text \<open>
  Modelled from the spec: \<open>count\<close>, \<open>on\<close> and \<open>off\<close> of the emitter class, which is not
  in the sources. Section 4.3: a count of live listeners.
\<close>

definition count :: "emitter \<Rightarrow> nat" where
  "count emitter = length emitter"

text \<open>Modelled from the spec: \<open>on\<close> of the emitter (section 4.3) adds a subscription.\<close>

definition on :: "string \<Rightarrow> nat \<Rightarrow> emitter \<Rightarrow> emitter" where
  "on event listener emitter = emitter @ [(event, listener)]"

text \<open>
  Modelled from the spec: \<open>off\<close> of the emitter (section 4.3) removes the subscription
  and is a no-op if the listener was never registered.
\<close>

definition off :: "string \<Rightarrow> nat \<Rightarrow> emitter \<Rightarrow> emitter" where
  "off event listener emitter = remove1 (event, listener) emitter"

text \<open>
  The state of the singleton: the cached emitter, if any, how many emitters
  createMiniAppsEventEmitter has made and how many times a cleanup was invoked.
\<close>

record singleton =
  cached :: "emitter option"
  created :: nat
  cleanups :: nat

text \<open>
  Modelled from the spec: the getter that createSingleton (\<open>@/misc/createSingleton.js\<close>,
  not in the sources) returns. Section 5: the singleton is lazily recreated on next use;
  a new emitter has no listeners.
\<close>

definition get :: "singleton \<Rightarrow> emitter \<times> singleton" where
  "get s =
     (case cached s of
        Some emitter \<Rightarrow> (emitter, s)
      | None \<Rightarrow> ([], s\<lparr>cached := Some [], created := Suc (created s)\<rparr>))"

text \<open>
  Modelled from the spec: the reset function of createSingleton, with the second argument
  of singleton.ts, which invokes the cleanup. Section 5: the singleton is torn down
  (cleanup invoked); with nothing cached there is nothing to tear down.
\<close>

definition reset :: "singleton \<Rightarrow> singleton" where
  "reset s =
     (case cached s of
        Some emitter \<Rightarrow> s\<lparr>cached := None, cleanups := Suc (cleanups s)\<rparr>
      | None \<Rightarrow> s)"

definition miniAppsEventEmitter :: "singleton \<Rightarrow> emitter \<times> singleton" where
  "miniAppsEventEmitter s = get s"

text \<open>
  The rewired \<open>off\<close> of singleton.ts, called on the emitter the singleton holds; with
  no emitter cached there is no such object to call it on.
\<close>

definition rewired_off :: "string \<Rightarrow> nat \<Rightarrow> singleton \<Rightarrow> singleton" where
  "rewired_off event listener s =
     (case cached s of
        None \<Rightarrow> s
      | Some emitter \<Rightarrow>
          (let count_before = count emitter;
               emitter' = off event listener emitter;
               s' = s\<lparr>cached := Some emitter'\<rparr>
           in if count_before \<noteq> 0 \<and> \<not> count emitter' \<noteq> 0 then reset s' else s'))"

text \<open>A listener is added through the accessor: \<open>miniAppsEventEmitter().on(...)\<close>.\<close>

definition singleton_on :: "string \<Rightarrow> nat \<Rightarrow> singleton \<Rightarrow> singleton" where
  "singleton_on event listener s =
     (let (emitter, s') = miniAppsEventEmitter s
      in s'\<lparr>cached := Some (on event listener emitter)\<rparr>)"

section \<open>Concrete inputs\<close>

text \<open>
  A component at version 6.0 with two listeners, a host that supports none of the gated
  methods and one that supports all of them, and a few parsed URLs.
\<close>

definition demo_world :: world where
  "demo_world =
     \<lparr>headerColor = ''bg_color'', backgroundColor = ''#ffffff'', currentVersion = [6, 0],
      currentPlatform = ''tdesktop'', listeners = [1, 2], trace = [], pending = [],
      settled = [], next_promise = 0\<rparr>"

definition demo_urls :: "(string \<times> url) list" where
  "demo_urls =
     [(''https://t.me/invoice/abc'',
         \<lparr>hostname = ''t.me'', pathname = ''/invoice/abc'', search = []\<rparr>),
      (''https://t.me/$xyz'',
         \<lparr>hostname = ''t.me'', pathname = ''/$xyz'', search = []\<rparr>),
      (''https://t.me/share?url=a'',
         \<lparr>hostname = ''t.me'', pathname = ''/share'', search = ''?url=a''\<rparr>),
      (''https://example.com/invoice/abc'',
         \<lparr>hostname = ''example.com'', pathname = ''/invoice/abc'', search = []\<rparr>)]"

definition legacy_env :: env where
  "legacy_env =
     \<lparr>supports = (\<lambda>m v. False), formatURL = Some, newURL = map_of demo_urls,
      isRGB = (\<lambda>c. take 1 c = ''#'')\<rparr>"

definition modern_env :: env where
  "modern_env =
     \<lparr>supports = (\<lambda>m v. True), formatURL = Some, newURL = map_of demo_urls,
      isRGB = (\<lambda>c. take 1 c = ''#'')\<rparr>"

text \<open>
  A page that was reloaded; the persisted texts the parser knows, among them one whose
  index lies outside its history, one without an index and the text \<open>null\<close>; a
  constructor that throws unless the history is a non-empty array and the index is
  undefined or a number inside it; and a location that gives the single entry
  \<open>/home\<close>.
\<close>

definition demo_snapshots :: "(string \<times> json) list" where
  "demo_snapshots =
     [(''{index:1,history:[/a,/b,/c]}'',
         JObj [(''index'', JNum 1), (''history'', JArr [JStr ''/a'', JStr ''/b'', JStr ''/c''])]),
      (''{index:0,history:[/home]}'',
         JObj [(''index'', JNum 0), (''history'', JArr [JStr ''/home''])]),
      (''{index:2,history:[/a,/b,/c]}'',
         JObj [(''index'', JNum 2), (''history'', JArr [JStr ''/a'', JStr ''/b'', JStr ''/c''])]),
      (''{index:1,history:[/a,/d]}'',
         JObj [(''index'', JNum 1), (''history'', JArr [JStr ''/a'', JStr ''/d''])]),
      (''{index:3,history:[/a]}'',
         JObj [(''index'', JNum 3), (''history'', JArr [JStr ''/a''])]),
      (''{history:[/a,/b]}'',
         JObj [(''history'', JArr [JStr ''/a'', JStr ''/b''])]),
      (''null'', JNull)]"

fun index_fits :: "json option \<Rightarrow> json list \<Rightarrow> bool" where
  "index_fits None entries = True"
| "index_fits (Some (JNum n)) entries = (0 \<le> n \<and> n < int (length entries))"
| "index_fits (Some v) entries = False"

fun demo_accepts :: "json option \<Rightarrow> json option \<Rightarrow> unit option \<Rightarrow> bool" where
  "demo_accepts (Some (JArr entries)) i opts = (entries \<noteq> [] \<and> index_fits i entries)"
| "demo_accepts h i opts = False"

definition demo_nav_env :: "unit nav_env" where
  "demo_nav_env =
     \<lparr>isPageReload = True,
      JSON_parse = map_of demo_snapshots,
      JSON_stringify =
        (\<lambda>s. case map_of
                 (map (\<lambda>(t, v). ((property ''index'' v, property ''history'' v), t))
                    demo_snapshots) s of
               Some t \<Rightarrow> t | None \<Rightarrow> ''{}''),
      accepts = demo_accepts,
      fromLocation = (\<lambda>opts. (Some (JNum 0), Some (JArr [JStr ''/home''])))\<rparr>"

definition demo_browser :: "string option \<Rightarrow> browser" where
  "demo_browser stored =
     \<lparr>sessionStorage = (\<lambda>k. if k = ''nav'' then stored else None), setItem_calls = [],
      console_errors = 0\<rparr>"

definition demo_singleton :: singleton where
  "demo_singleton = \<lparr>cached = None, created = 0, cleanups = 0\<rparr>"

section \<open>Properties of the WebApp component\<close>

subsection \<open>Bridge calls of a trace\<close>

lemma posted_append: "posted (xs @ ys) = posted xs @ posted ys"
  by (induction xs rule: posted.induct) simp_all

subsection \<open>sendData\<close>

lemma blob_size_ascii: "list_all (\<lambda>u. u < 0x80) us \<Longrightarrow> blob_size us = length us"
  by (induction us rule: blob_size.induct) simp_all

lemma blob_size_euro: "blob_size (replicate n 0x20AC) = 3 * n"
proof (induction n)
  case 0
  then show ?case by simp
next
  case (Suc n)
  then show ?case by (cases n) simp_all
qed

text \<open>
  Claim C3. When the byte size of the data is 0 or above 4096, sendData throws and the
  world is as it was: no bridge call has been issued. When the size is between 1 and
  4096, sendData returns normally and has issued exactly one bridge call,
  \<open>web_app_data_send\<close> carrying the data.
\<close>

theorem sendData_size_check:
  "(blob_size data = 0 \<or> blob_size data > 4096 \<longrightarrow>
      sendData data w = (Inl (IncorrectSize (blob_size data)), w)) \<and>
   (1 \<le> blob_size data \<and> blob_size data \<le> 4096 \<longrightarrow>
      sendData data w =
        (Inr (), w\<lparr>trace := trace w @ [Posted ''web_app_data_send'' [(''data'', Text data)]]\<rparr>) \<and>
      posted (trace (snd (sendData data w))) =
        posted (trace w) @ [(''web_app_data_send'', [(''data'', Text data)])])"
  by (auto simp: sendData_def postEvent_def posted_append Let_def)

text \<open>
  The empty string, 4097 letters and 2000 euro signs (6000 bytes) are refused; two
  letters and 4096 letters are sent.
\<close>

theorem sendData_size_check_witness:
  "sendData [] demo_world = (Inl (IncorrectSize 0), demo_world) \<and>
   sendData (replicate 4097 0x61) demo_world = (Inl (IncorrectSize 4097), demo_world) \<and>
   sendData (replicate 2000 0x20AC) demo_world = (Inl (IncorrectSize 6000), demo_world) \<and>
   posted (trace (snd (sendData [0x68, 0x69] demo_world))) =
     [(''web_app_data_send'', [(''data'', Text [0x68, 0x69])])] \<and>
   fst (sendData (replicate 4096 0x61) demo_world) = Inr ()"
proof -
  have a: "blob_size (replicate 4097 (0x61 :: 16 word)) = 4097"
    by (subst blob_size_ascii) (simp_all add: list_all_length)
  have b: "blob_size (replicate 4096 (0x61 :: 16 word)) = 4096"
    by (subst blob_size_ascii) (simp_all add: list_all_length)
  have c: "blob_size (replicate 2000 (0x20AC :: 16 word)) = 6000"
    by (simp add: blob_size_euro)
  have d: "blob_size [0x68, 0x69 :: 16 word] = 2" by simp
  show ?thesis
    using sendData_size_check [of "[]" demo_world]
      sendData_size_check [of "replicate 4097 0x61" demo_world]
      sendData_size_check [of "replicate 2000 0x20AC" demo_world]
      sendData_size_check [of "[0x68, 0x69]" demo_world]
      sendData_size_check [of "replicate 4096 0x61" demo_world]
    unfolding a b c d by (simp add: demo_world_def)
qed

subsection \<open>isVersionAtLeast\<close>

lemma component_Nil [simp]: "component [] i = 0"
  by (simp add: component_def)

lemma component_Cons_0 [simp]: "component (a # as) 0 = a"
  by (simp add: component_def)

lemma component_Cons_Suc [simp]: "component (a # as) (Suc i) = component as i"
  by (simp add: component_def)

lemma component_zero [simp]: "component [0] i = 0"
  by (cases i) simp_all

lemma compareVersions_range: "compareVersions a b \<in> {- 1, 0, 1}"
  by (induction a b rule: compareVersions.induct) auto

lemma compareVersions_flip: "compareVersions a b = - compareVersions b a"
  by (induction a b rule: compareVersions.induct) auto

lemma version_less_Cons:
  "version_less (a # as) (b # bs) \<longleftrightarrow> a < b \<or> (a = b \<and> version_less as bs)"
proof
  assume "version_less (a # as) (b # bs)"
  then obtain i where i: "component (a # as) i < component (b # bs) i"
    "\<forall>j. j < i \<longrightarrow> component (a # as) j = component (b # bs) j"
    by (auto simp: version_less_def)
  show "a < b \<or> (a = b \<and> version_less as bs)"
  proof (cases i)
    case 0
    with i show ?thesis by simp
  next
    case (Suc k)
    with i(2) have "a = b" by (metis component_Cons_0 zero_less_Suc)
    moreover from Suc i(1) have "component as k < component bs k" by simp
    moreover from Suc i(2) have "\<forall>j. j < k \<longrightarrow> component as j = component bs j"
      by (metis Suc_less_eq component_Cons_Suc)
    ultimately show ?thesis by (auto simp: version_less_def)
  qed
next
  assume "a < b \<or> (a = b \<and> version_less as bs)"
  then show "version_less (a # as) (b # bs)"
  proof
    assume "a < b"
    then have "component (a # as) 0 < component (b # bs) 0 \<and>
      (\<forall>j. j < 0 \<longrightarrow> component (a # as) j = component (b # bs) j)"
      by simp
    then show ?thesis unfolding version_less_def by blast
  next
    assume h: "a = b \<and> version_less as bs"
    then obtain k where k: "component as k < component bs k"
      "\<forall>j. j < k \<longrightarrow> component as j = component bs j"
      by (auto simp: version_less_def)
    have "\<forall>j. j < Suc k \<longrightarrow> component (a # as) j = component (b # bs) j"
    proof (intro allI impI)
      fix j assume "j < Suc k"
      then show "component (a # as) j = component (b # bs) j"
        using h k(2) by (cases j) auto
    qed
    moreover have "component (a # as) (Suc k) < component (b # bs) (Suc k)"
      using k(1) by simp
    ultimately show ?thesis unfolding version_less_def by blast
  qed
qed

lemma version_less_pad_left: "version_less [] bs \<longleftrightarrow> version_less [0] bs"
  by (simp add: version_less_def)

lemma not_version_less_Nil: "\<not> version_less as []"
  by (simp add: version_less_def)

lemma compareVersions_less: "compareVersions a b = - 1 \<longleftrightarrow> version_less a b"
proof (induction a b rule: compareVersions.induct)
  case 1
  then show ?case by (simp add: version_less_def)
next
  case (2 a as)
  then show ?case
    using compareVersions_range [of as "[]"] by (auto simp: not_version_less_Nil)
next
  case (3 b bs)
  have "version_less [] (b # bs) \<longleftrightarrow> version_less [0] (b # bs)"
    by (rule version_less_pad_left)
  also have "\<dots> \<longleftrightarrow> 0 < b \<or> (0 = b \<and> version_less [] bs)"
    by (simp add: version_less_Cons)
  finally show ?case using 3 by auto
next
  case (4 a as b bs)
  then show ?case by (auto simp: version_less_Cons)
qed

lemma compareVersions_nonneg: "compareVersions a b \<ge> 0 \<longleftrightarrow> \<not> version_less a b"
  using compareVersions_range [of a b] compareVersions_less [of a b] by auto

text \<open>
  Claim C10. isVersionAtLeast of a version is true exactly when compareVersions of the
  passed version and the current one is at least 0: when the passed version is not below
  the current version in the order of dotted versions, which is the same as the current
  version compared with the passed one giving at most 0.
\<close>

theorem isVersionAtLeast_passed_ge_current:
  "(isVersionAtLeast w v \<longleftrightarrow> compareVersions v (currentVersion w) \<ge> 0) \<and>
   (isVersionAtLeast w v \<longleftrightarrow> \<not> version_less v (currentVersion w)) \<and>
   (isVersionAtLeast w v \<longleftrightarrow> compareVersions (currentVersion w) v \<le> 0)"
proof -
  have "compareVersions v (currentVersion w) = - compareVersions (currentVersion w) v"
    by (rule compareVersions_flip)
  then have "compareVersions v (currentVersion w) \<ge> 0 \<longleftrightarrow>
    compareVersions (currentVersion w) v \<le> 0"
    by linarith
  then show ?thesis
    unfolding isVersionAtLeast_def using compareVersions_nonneg [of v "currentVersion w"]
    by blast
qed

text \<open>
  At the current version 6.0 the answer is yes for 7.0 and for 6, and no for 5.9, although
  the current version is at least 5.9.
\<close>

theorem isVersionAtLeast_passed_ge_current_witness:
  "isVersionAtLeast demo_world [7, 0] \<and> isVersionAtLeast demo_world [6] \<and>
   \<not> isVersionAtLeast demo_world [5, 9] \<and>
   version_less [5, 9] (currentVersion demo_world) \<and>
   compareVersions [5, 9] (currentVersion demo_world) = - 1"
  using isVersionAtLeast_passed_ge_current [of demo_world "[7, 0]"]
    isVersionAtLeast_passed_ge_current [of demo_world "[6]"]
    isVersionAtLeast_passed_ge_current [of demo_world "[5, 9]"]
  by (simp add: isVersionAtLeast_def demo_world_def)

subsection \<open>openLink\<close>

text \<open>
  Claim C7. openLink fails only when formatURL throws, never for a missing capability.
  With the URL formatted: when \<open>web_app_open_link\<close> is unsupported at the
  current version, it opens the formatted URL with \<open>window.open\<close> and issues no bridge
  call; when supported, it posts \<open>web_app_open_link\<close> with the formatted URL, and with
  \<open>try_instant_view\<close> only when a boolean was passed.
\<close>

theorem openLink_never_unsupported:
  "(formatURL env u = None \<longrightarrow> openLink env u tryInstantView w = (Inl InvalidURL, w)) \<and>
   (formatURL env u = Some f \<longrightarrow>
      fst (openLink env u tryInstantView w) = Inr () \<and>
      (\<not> supports env ''web_app_open_link'' (currentVersion w) \<longrightarrow>
         snd (openLink env u tryInstantView w) =
           w\<lparr>trace := trace w @ [WindowOpen f ''_blank'']\<rparr> \<and>
         posted (trace (snd (openLink env u tryInstantView w))) = posted (trace w)) \<and>
      (supports env ''web_app_open_link'' (currentVersion w) \<longrightarrow>
         snd (openLink env u None w) =
           w\<lparr>trace := trace w @ [Posted ''web_app_open_link'' [(''url'', Str f)]]\<rparr> \<and>
         (\<forall>b. snd (openLink env u (Some b) w) =
           w\<lparr>trace := trace w @
             [Posted ''web_app_open_link''
               [(''url'', Str f), (''try_instant_view'', Flag b)]]\<rparr>)))"
proof (cases "formatURL env u")
  case None
  then show ?thesis by (simp add: openLink_def)
next
  case (Some g)
  show ?thesis
  proof (cases "supports env ''web_app_open_link'' (currentVersion w)")
    case True
    with Some show ?thesis by (simp add: openLink_def postEvent_def)
  next
    case False
    with Some show ?thesis by (simp add: openLink_def posted_append)
  qed
qed

theorem openLink_never_unsupported_witness:
  "openLink legacy_env ''https://example.com/a'' (Some True) demo_world =
     (Inr (), demo_world\<lparr>trace := [WindowOpen ''https://example.com/a'' ''_blank'']\<rparr>) \<and>
   posted (trace (snd (openLink legacy_env ''https://example.com/a'' (Some True) demo_world))) = [] \<and>
   posted (trace (snd (openLink modern_env ''https://example.com/a'' None demo_world))) =
     [(''web_app_open_link'', [(''url'', Str ''https://example.com/a'')])] \<and>
   posted (trace (snd (openLink modern_env ''https://example.com/a'' (Some False) demo_world))) =
     [(''web_app_open_link'',
       [(''url'', Str ''https://example.com/a''), (''try_instant_view'', Flag False)])]"
proof -
  have l: "formatURL legacy_env ''https://example.com/a'' = Some ''https://example.com/a''"
    by (simp add: legacy_env_def)
  have m: "formatURL modern_env ''https://example.com/a'' = Some ''https://example.com/a''"
    by (simp add: modern_env_def)
  have sl: "\<not> supports legacy_env ''web_app_open_link'' (currentVersion demo_world)"
    by (simp add: legacy_env_def)
  have sm: "supports modern_env ''web_app_open_link'' (currentVersion demo_world)"
    by (simp add: modern_env_def)
  have t: "trace demo_world = []" by (simp add: demo_world_def)
  show ?thesis
    using openLink_never_unsupported
        [of legacy_env "''https://example.com/a''" "Some True" demo_world "''https://example.com/a''"]
      openLink_never_unsupported
        [of modern_env "''https://example.com/a''" None demo_world "''https://example.com/a''"]
      l m sl sm
    by (simp add: t prod_eq_iff)
qed

subsection \<open>Disallowed URLs\<close>

lemma match_invoice_iff:
  "match_invoice p = Some slug \<longleftrightarrow>
     (p = ''/$'' @ slug \<or> p = ''/invoice/'' @ slug) \<and> slug \<noteq> [] \<and> list_all slug_char slug"
proof -
  have a: "take 2 p = ''/$'' \<Longrightarrow> p = ''/$'' @ drop 2 p"
    by (metis append_take_drop_id)
  have b: "take 9 p = ''/invoice/'' \<Longrightarrow> p = ''/invoice/'' @ drop 9 p"
    by (metis append_take_drop_id)
  show ?thesis
    using a b by (auto simp: match_invoice_def slug_of_def)
qed

text \<open>
  Claim C8. For a URL whose hostname, once formatted and parsed, is not \<open>t.me\<close>,
  openTelegramLink throws and openInvoice fails, its promise rejected before the method
  returns; openInvoice fails in the same way when the hostname is \<open>t.me\<close> and the
  pathname does not match. In each case the world is untouched: no bridge call was issued
  and no listener registered.
\<close>

theorem disallowed_url_fails_first:
  "formatURL env u = Some f \<Longrightarrow> newURL env f = Some parsed \<Longrightarrow>
   (hostname parsed \<noteq> ''t.me'' \<longrightarrow>
      openTelegramLink env u w = (Inl (NotAllowedHostname (hostname parsed)), w) \<and>
      openInvoice env u w = (Rejected (IncorrectHostname (hostname parsed)), w)) \<and>
   (hostname parsed = ''t.me'' \<and> match_invoice (pathname parsed) = None \<longrightarrow>
      openInvoice env u w = (Rejected IncorrectPathname, w))"
  by (simp add: openTelegramLink_def openInvoice_def)

theorem disallowed_url_fails_first_witness:
  "openTelegramLink modern_env ''https://example.com/invoice/abc'' demo_world =
     (Inl (NotAllowedHostname ''example.com''), demo_world) \<and>
   openInvoice modern_env ''https://example.com/invoice/abc'' demo_world =
     (Rejected (IncorrectHostname ''example.com''), demo_world) \<and>
   openInvoice modern_env ''https://t.me/share?url=a'' demo_world =
     (Rejected IncorrectPathname, demo_world)"
proof -
  have f: "formatURL modern_env u = Some u" for u
    by (simp add: modern_env_def)
  have p1: "newURL modern_env ''https://example.com/invoice/abc'' =
      Some \<lparr>hostname = ''example.com'', pathname = ''/invoice/abc'', search = []\<rparr>"
    by (simp add: modern_env_def demo_urls_def)
  have p2: "newURL modern_env ''https://t.me/share?url=a'' =
      Some \<lparr>hostname = ''t.me'', pathname = ''/share'', search = ''?url=a''\<rparr>"
    by (simp add: modern_env_def demo_urls_def)
  have m: "match_invoice ''/share'' = None"
    by (simp add: match_invoice_def)
  show ?thesis
    using disallowed_url_fails_first [OF f p1, of demo_world]
      disallowed_url_fails_first [OF f p2, of demo_world] m
    by simp
qed

subsection \<open>The colour mutators\<close>

lemma posted_notifications [simp]: "posted (map (\<lambda>l. Notified l k v) ls) = []"
  by (induction ls) simp_all

lemma observed_append:
  "observed before (xs @ ys) = observed before xs @ observed (before @ xs) ys"
  by (induction before xs rule: observed.induct) simp_all

lemma observed_notifications:
  "posted extra = [] \<Longrightarrow>
   observed (before @ extra) (map (\<lambda>l. Notified l k v) ls) = map (\<lambda>l. (l, posted before)) ls"
proof (induction ls arbitrary: extra)
  case Nil
  then show ?case by simp
next
  case (Cons l ls)
  from Cons.prems have "posted (extra @ [Notified l k v]) = []"
    by (simp add: posted_append)
  from Cons.IH [OF this] Cons.prems show ?case
    by (simp add: posted_append)
qed

lemma setHeaderColor_trace:
  "trace (setHeaderColor env color w) =
     trace w @
       Posted ''web_app_set_header_color''
         (if isRGB env color then [(''color'', Str color)] else [(''color_key'', Str color)]) #
       StateSet ''headerColor'' color #
       map (\<lambda>l. Notified l ''headerColor'' color) (listeners w)"
  by (simp add: setHeaderColor_def state_set_def postEvent_def)

lemma setBackgroundColor_trace:
  "trace (setBackgroundColor env color w) =
     trace w @
       Posted ''web_app_set_background_color'' [(''color'', Str color)] #
       StateSet ''backgroundColor'' color #
       map (\<lambda>l. Notified l ''backgroundColor'' color) (listeners w)"
  by (simp add: setBackgroundColor_def state_set_def postEvent_def)

lemma observed_after_call:
  "observed before (Posted m p # StateSet k v # map (\<lambda>l. Notified l k v) ls) =
     map (\<lambda>l. (l, posted before @ [(m, p)])) ls"
  using observed_notifications [of "[StateSet k v]" "before @ [Posted m p]" k v ls]
  by (simp add: posted_append)

text \<open>
  Claim C2 does not hold of the code: at a version where the host does not support
  \<open>web_app_set_header_color\<close>, and the component's own supports function says so,
  setHeaderColor posts the event all the same and returns normally.
\<close>

theorem capability_check_counterexample:
  "\<not> webapp_supports legacy_env demo_world ''setHeaderColor'' \<and>
   \<not> supports legacy_env ''web_app_set_header_color'' (currentVersion demo_world) \<and>
   posted (trace (setHeaderColor legacy_env ''#aabbcc'' demo_world)) =
     [(''web_app_set_header_color'', [(''color'', Str ''#aabbcc'')])] \<and>
   headerColor (setHeaderColor legacy_env ''#aabbcc'' demo_world) = ''#aabbcc''"
  by (simp add: webapp_supports_def supports_schema_def legacy_env_def demo_world_def
      setHeaderColor_def state_set_def postEvent_def)

text \<open>
  Claim C2 as amended. setHeaderColor and setBackgroundColor make no capability check:
  whatever the host supports at the current version, each call issues its bridge event
  once and sets the field; replacing the \<open>supports\<close> function changes nothing of what
  they do. Whether the event is supported is only answered to the caller, by the
  component's supports function, which for these two methods is the bridge's answer for
  \<open>web_app_set_header_color\<close> and \<open>web_app_set_background_color\<close>.
\<close>

theorem colour_mutators_post_unconditionally:
  "posted (trace (setHeaderColor env color w)) =
     posted (trace w) @
       [(''web_app_set_header_color'',
         if isRGB env color then [(''color'', Str color)] else [(''color_key'', Str color)])] \<and>
   headerColor (setHeaderColor env color w) = color \<and>
   posted (trace (setBackgroundColor env color w)) =
     posted (trace w) @ [(''web_app_set_background_color'', [(''color'', Str color)])] \<and>
   backgroundColor (setBackgroundColor env color w) = color \<and>
   setHeaderColor (env\<lparr>supports := s\<rparr>) color w = setHeaderColor env color w \<and>
   setBackgroundColor (env\<lparr>supports := s\<rparr>) color w = setBackgroundColor env color w \<and>
   webapp_supports env w ''setHeaderColor'' =
     supports env ''web_app_set_header_color'' (currentVersion w) \<and>
   webapp_supports env w ''setBackgroundColor'' =
     supports env ''web_app_set_background_color'' (currentVersion w)"
  by (simp add: setHeaderColor_trace setBackgroundColor_trace posted_append)
    (simp add: setHeaderColor_def setBackgroundColor_def state_set_def postEvent_def
      webapp_supports_def supports_schema_def)

theorem colour_mutators_post_unconditionally_witness:
  "posted (trace (setBackgroundColor legacy_env ''#000000'' demo_world)) =
     [(''web_app_set_background_color'', [(''color'', Str ''#000000'')])] \<and>
   posted (trace (setHeaderColor legacy_env ''secondary_bg_color'' demo_world)) =
     [(''web_app_set_header_color'', [(''color_key'', Str ''secondary_bg_color'')])] \<and>
   \<not> webapp_supports legacy_env demo_world ''setBackgroundColor''"
  using colour_mutators_post_unconditionally [of legacy_env "''#000000''" demo_world]
    colour_mutators_post_unconditionally [of legacy_env "''secondary_bg_color''" demo_world]
  by (simp add: legacy_env_def demo_world_def)

text \<open>
  Claim C6. A call of setHeaderColor or setBackgroundColor adds to the trace, in this
  order, the bridge call, the write of the state field and the notifications of the
  listeners; so every listener notified by the call finds the bridge calls issued before
  the call followed by the call's own event.
\<close>

theorem colour_mutators_effect_order:
  "trace (setHeaderColor env color w) =
     trace w @
       Posted ''web_app_set_header_color''
         (if isRGB env color then [(''color'', Str color)] else [(''color_key'', Str color)]) #
       StateSet ''headerColor'' color #
       map (\<lambda>l. Notified l ''headerColor'' color) (listeners w) \<and>
   trace (setBackgroundColor env color w) =
     trace w @
       Posted ''web_app_set_background_color'' [(''color'', Str color)] #
       StateSet ''backgroundColor'' color #
       map (\<lambda>l. Notified l ''backgroundColor'' color) (listeners w) \<and>
   observed [] (trace (setHeaderColor env color w)) =
     observed [] (trace w) @
       map (\<lambda>l. (l, posted (trace w) @
         [(''web_app_set_header_color'',
           if isRGB env color then [(''color'', Str color)] else [(''color_key'', Str color)])]))
         (listeners w) \<and>
   observed [] (trace (setBackgroundColor env color w)) =
     observed [] (trace w) @
       map (\<lambda>l. (l, posted (trace w) @
         [(''web_app_set_background_color'', [(''color'', Str color)])])) (listeners w)"
  by (simp only: setHeaderColor_trace setBackgroundColor_trace observed_append
      observed_after_call append_Nil simp_thms)

theorem colour_mutators_effect_order_witness:
  "trace (setBackgroundColor modern_env ''#000000'' demo_world) =
     [Posted ''web_app_set_background_color'' [(''color'', Str ''#000000'')],
      StateSet ''backgroundColor'' ''#000000'',
      Notified 1 ''backgroundColor'' ''#000000'', Notified 2 ''backgroundColor'' ''#000000''] \<and>
   observed [] (trace (setBackgroundColor modern_env ''#000000'' demo_world)) =
     [(1, [(''web_app_set_background_color'', [(''color'', Str ''#000000'')])]),
      (2, [(''web_app_set_background_color'', [(''color'', Str ''#000000'')])])]"
  using colour_mutators_effect_order [of modern_env "''#000000''" demo_world]
  by (simp add: demo_world_def)

subsection \<open>openInvoice\<close>

lemma request_fields:
  "fst (request m p e c w) = next_promise w"
  "pending (snd (request m p e c w)) =
     pending w @ [\<lparr>promise_id = next_promise w, expected = e, captured_by = c\<rparr>]"
  "settled (snd (request m p e c w)) = settled w"
  "next_promise (snd (request m p e c w)) = Suc (next_promise w)"
  "trace (snd (request m p e c w)) = trace w @ [Posted m p]"
  by (simp_all add: request_def postEvent_def Let_def)

lemma openInvoice_world:
  "snd (openInvoice env u w) = w \<or>
   (\<exists>s. snd (openInvoice env u w) =
      snd (request ''web_app_open_invoice'' [(''slug'', Str s)] ''invoice_closed''
        (CaptureSlug s) w))"
  by (simp add: openInvoice_def case_prod_unfold Let_def split: option.splits) blast

lemma receive_fields:
  "pending (receive name p w) = filter (\<lambda>r. \<not> claimed name p r) (pending w)"
  "settled (receive name p w) =
     settled w @ map (\<lambda>r. (promise_id r, p)) (filter (claimed name p) (pending w))"
  "next_promise (receive name p w) = next_promise w"
  "trace (receive name p w) = trace w"
  by (simp_all add: receive_def)

lemma settled_act: "\<exists>more. settled (act env a w) = settled w @ more"
proof (cases a)
  case (OpenInvoice u)
  then show ?thesis
    using openInvoice_world [of env u w] by (auto simp: request_fields)
next
  case (Receive name p)
  then show ?thesis by (simp add: receive_fields)
qed

lemma settled_stays:
  "map_of (settled w) i = Some p \<Longrightarrow> map_of (settled (run env acts w)) i = Some p"
proof (induction acts arbitrary: w)
  case Nil
  then show ?case by (simp add: run_def)
next
  case (Cons a acts)
  obtain more where "settled (act env a w) = settled w @ more"
    using settled_act by blast
  with Cons.prems have "map_of (settled (act env a w)) i = Some p"
    by (simp add: map_add_Some_iff)
  from Cons.IH [OF this] show ?case by (simp add: run_def)
qed

lemma map_of_constant:
  "map_of (map (\<lambda>r. (f r, p)) rs) i = (if i \<in> f ` set rs then Some p else None)"
  by (induction rs) auto

lemma claimed_slug:
  "expected r = ''invoice_closed'' \<Longrightarrow> captured_by r = CaptureSlug slug \<Longrightarrow>
   claimed name p r \<longleftrightarrow> name = ''invoice_closed'' \<and> map_of p ''slug'' = Some (Str slug)"
  by (auto simp: claimed_def)

lemma pending_run:
  assumes "i < next_promise w"
    and "i \<notin> fst ` set (settled w)"
    and "\<forall>r\<in>set (pending w). promise_id r = i \<longrightarrow>
           expected r = ''invoice_closed'' \<and> captured_by r = CaptureSlug slug"
    and "\<exists>r\<in>set (pending w). promise_id r = i"
  shows "invoice_result (run env acts w) i =
           map_option (\<lambda>p. map_of p ''status'') (first_closed slug acts)"
  using assms
proof (induction acts arbitrary: w)
  case Nil
  then have "map_of (settled w) i = None"
    by (simp add: map_of_eq_None_iff)
  then show ?case by (simp add: run_def invoice_result_def)
next
  case (Cons a acts)
  show ?case
  proof (cases a)
    case (OpenInvoice u)
    let ?w = "act env a w"
    have "?w = w \<or> (\<exists>s. ?w = snd (request ''web_app_open_invoice'' [(''slug'', Str s)]
        ''invoice_closed'' (CaptureSlug s) w))"
      using openInvoice_world [of env u w] OpenInvoice by simp
    then have "i < next_promise ?w \<and> i \<notin> fst ` set (settled ?w) \<and>
      (\<forall>r\<in>set (pending ?w). promise_id r = i \<longrightarrow>
           expected r = ''invoice_closed'' \<and> captured_by r = CaptureSlug slug) \<and>
      (\<exists>r\<in>set (pending ?w). promise_id r = i)"
    proof
      assume "?w = w"
      with Cons.prems show ?thesis by simp
    next
      assume "\<exists>s. ?w = snd (request ''web_app_open_invoice'' [(''slug'', Str s)]
        ''invoice_closed'' (CaptureSlug s) w)"
      then obtain s where "?w = snd (request ''web_app_open_invoice'' [(''slug'', Str s)]
        ''invoice_closed'' (CaptureSlug s) w)" ..
      with Cons.prems show ?thesis by (auto simp: request_fields)
    qed
    then have "invoice_result (run env acts ?w) i =
           map_option (\<lambda>p. map_of p ''status'') (first_closed slug acts)"
      using Cons.IH [of ?w] by blast
    with OpenInvoice show ?thesis by (simp add: run_def)
  next
    case (Receive name p)
    let ?w = "receive name p w"
    show ?thesis
    proof (cases "name = ''invoice_closed'' \<and> map_of p ''slug'' = Some (Str slug)")
      case True
      from Cons.prems(4) obtain r where r: "r \<in> set (pending w)" "promise_id r = i"
        by blast
      with Cons.prems(3) True have "claimed name p r"
        by (simp add: claimed_slug)
      with r have "i \<in> promise_id ` set (filter (claimed name p) (pending w))"
        by force
      then have "map_of (map (\<lambda>r. (promise_id r, p)) (filter (claimed name p) (pending w))) i =
          Some p"
        by (simp only: map_of_constant if_True)
      moreover from Cons.prems(2) have "map_of (settled w) i = None"
        by (simp add: map_of_eq_None_iff)
      ultimately have "map_of (settled ?w) i = Some p"
        by (simp add: receive_fields map_add_Some_iff)
      then have "map_of (settled (run env acts ?w)) i = Some p"
        by (rule settled_stays)
      with True Receive show ?thesis
        by (simp add: run_def invoice_result_def)
    next
      case False
      have unclaimed: "\<not> claimed name p r" if "r \<in> set (pending w)" "promise_id r = i" for r
        using that Cons.prems(3) False by (simp add: claimed_slug)
      have "i < next_promise ?w" using Cons.prems(1) by (simp add: receive_fields)
      moreover have "i \<notin> promise_id ` set (filter (claimed name p) (pending w))"
        using unclaimed by auto
      with Cons.prems(2) have "i \<notin> fst ` set (settled ?w)"
        by (auto simp: receive_fields)
      moreover have "\<forall>r\<in>set (pending ?w). promise_id r = i \<longrightarrow>
           expected r = ''invoice_closed'' \<and> captured_by r = CaptureSlug slug"
        using Cons.prems(3) by (simp add: receive_fields)
      moreover have "\<exists>r\<in>set (pending ?w). promise_id r = i"
        using Cons.prems(4) unclaimed by (auto simp: receive_fields)
      ultimately have "invoice_result (run env acts ?w) i =
           map_option (\<lambda>p. map_of p ''status'') (first_closed slug acts)"
        using Cons.IH [of ?w] by blast
      with False Receive show ?thesis by (auto simp: run_def)
    qed
  qed
qed

lemma fresh_ids_act: "fresh_ids w \<Longrightarrow> fresh_ids (act env a w)"
proof (cases a)
  case (OpenInvoice u)
  assume "fresh_ids w"
  then have "fresh_ids (snd (request m p e c w))" for m p e c
    by (auto simp: fresh_ids_def request_fields list_all_iff)
  with \<open>fresh_ids w\<close> show ?thesis
    using openInvoice_world [of env u w] OpenInvoice by auto
next
  case (Receive name p)
  assume "fresh_ids w"
  then show ?thesis using Receive
    by (auto simp: fresh_ids_def receive_fields list_all_iff)
qed


lemma fresh_ids_run: "fresh_ids w \<Longrightarrow> fresh_ids (run env acts w)"
proof (induction acts arbitrary: w)
  case Nil
  then show ?case by (simp add: run_def)
next
  case (Cons a acts)
  from Cons.prems have "fresh_ids (act env a w)" by (rule fresh_ids_act)
  from Cons.IH [OF this] show ?case by (simp add: run_def)
qed

text \<open>
  Claim C1. For a URL that openInvoice accepts (hostname \<open>t.me\<close>, pathname
  \<open>/invoice/slug\<close> or \<open>/$slug\<close> with a non-empty slug of the allowed characters),
  openInvoice posts \<open>web_app_open_invoice\<close> carrying the slug and returns a pending
  promise. Whatever happens afterwards, other openInvoice calls and incoming events in any
  order, that promise is settled exactly by the first \<open>invoice_closed\<close> event whose slug
  equals the request's, with that event's status; until such an event arrives it stays
  unsettled, so an event for another slug never resolves it.
\<close>

theorem openInvoice_settles_on_own_slug:
  assumes "fresh_ids w"
    and "formatURL env u = Some f"
    and "newURL env f = Some parsed"
    and "hostname parsed = ''t.me''"
    and "pathname parsed = ''/invoice/'' @ slug \<or> pathname parsed = ''/$'' @ slug"
    and "slug \<noteq> []"
    and "list_all slug_char slug"
  shows "fst (openInvoice env u w) = Awaiting (next_promise w) \<and>
         posted (trace (snd (openInvoice env u w))) =
           posted (trace w) @ [(''web_app_open_invoice'', [(''slug'', Str slug)])] \<and>
         (\<forall>acts. invoice_result (run env acts (snd (openInvoice env u w))) (next_promise w) =
            map_option (\<lambda>p. map_of p ''status'') (first_closed slug acts))"
proof -
  let ?r = "request ''web_app_open_invoice'' [(''slug'', Str slug)] ''invoice_closed''
    (CaptureSlug slug) w"
  from assms(5-7) have "match_invoice (pathname parsed) = Some slug"
    unfolding match_invoice_iff by blast
  with assms(2-4) have call: "openInvoice env u w = (Awaiting (fst ?r), snd ?r)"
    by (simp add: openInvoice_def case_prod_unfold Let_def)
  from assms(1) have old: "\<forall>r\<in>set (pending w). promise_id r \<noteq> next_promise w"
    and unsettled: "next_promise w \<notin> fst ` set (settled w)"
    by (auto simp: fresh_ids_def list_all_iff)
  have "invoice_result (run env acts (snd ?r)) (next_promise w) =
      map_option (\<lambda>p. map_of p ''status'') (first_closed slug acts)" for acts
  proof (rule pending_run)
    show "next_promise w < next_promise (snd ?r)" by (simp add: request_fields)
    show "next_promise w \<notin> fst ` set (settled (snd ?r))"
      using unsettled by (simp add: request_fields)
    show "\<forall>r\<in>set (pending (snd ?r)). promise_id r = next_promise w \<longrightarrow>
        expected r = ''invoice_closed'' \<and> captured_by r = CaptureSlug slug"
      using old by (auto simp: request_fields)
    show "\<exists>r\<in>set (pending (snd ?r)). promise_id r = next_promise w"
      by (simp add: request_fields)
  qed
  then show ?thesis
    by (simp add: call request_fields posted_append)
qed

text \<open>
  Two invoices are open at once, \<open>abc\<close> first and \<open>xyz\<close> second; the host closes
  \<open>xyz\<close> as paid and then \<open>abc\<close> as cancelled. The first promise is still unsettled
  after the event for \<open>xyz\<close> and ends with \<open>cancelled\<close>.
\<close>

theorem openInvoice_settles_on_own_slug_witness:
  "fst (openInvoice modern_env ''https://t.me/invoice/abc'' demo_world) = Awaiting 0 \<and>
   posted (trace (snd (openInvoice modern_env ''https://t.me/invoice/abc'' demo_world))) =
     [(''web_app_open_invoice'', [(''slug'', Str ''abc'')])] \<and>
   invoice_result
     (run modern_env
        [OpenInvoice ''https://t.me/$xyz'',
         Receive ''invoice_closed'' [(''slug'', Str ''xyz''), (''status'', Str ''paid'')]]
        (snd (openInvoice modern_env ''https://t.me/invoice/abc'' demo_world))) 0 = None \<and>
   invoice_result
     (run modern_env
        [OpenInvoice ''https://t.me/$xyz'',
         Receive ''invoice_closed'' [(''slug'', Str ''xyz''), (''status'', Str ''paid'')],
         Receive ''invoice_closed'' [(''slug'', Str ''abc''), (''status'', Str ''cancelled'')]]
        (snd (openInvoice modern_env ''https://t.me/invoice/abc'' demo_world))) 0 =
     Some (Some (Str ''cancelled''))"
proof -
  have a: "fresh_ids demo_world"
    by (simp add: fresh_ids_def demo_world_def)
  have b: "formatURL modern_env ''https://t.me/invoice/abc'' = Some ''https://t.me/invoice/abc''"
    by (simp add: modern_env_def)
  have c: "newURL modern_env ''https://t.me/invoice/abc'' =
      Some \<lparr>hostname = ''t.me'', pathname = ''/invoice/abc'', search = []\<rparr>"
    by (simp add: modern_env_def demo_urls_def)
  have d: "hostname \<lparr>hostname = ''t.me'', pathname = ''/invoice/abc'', search = []\<rparr> = ''t.me''"
    by simp
  have e: "pathname \<lparr>hostname = ''t.me'', pathname = ''/invoice/abc'', search = []\<rparr> =
        ''/invoice/'' @ ''abc'' \<or>
      pathname \<lparr>hostname = ''t.me'', pathname = ''/invoice/abc'', search = []\<rparr> = ''/$'' @ ''abc''"
    by simp
  have f: "''abc'' \<noteq> []" by simp
  have g: "list_all slug_char ''abc''" by (simp add: slug_char_def)
  have n: "next_promise demo_world = 0" "trace demo_world = []"
    by (simp_all add: demo_world_def)
  show ?thesis
    using openInvoice_settles_on_own_slug [OF a b c d e f g]
    by (simp add: n)
qed

section \<open>Properties of initNavigator\<close>

lemma instantiate_restored:
  assumes "isPageReload env" and "sessionStorage b k = Some raw" and "raw \<noteq> []"
    and "JSON_parse env raw = Some v" and "v \<noteq> JNull"
    and "accepts env (property ''history'' v) (property ''index'' v) opts"
  shows "instantiate env k opts b =
    (\<lparr>index = property ''index'' v, history = property ''history'' v, options = opts,
      subscribed = []\<rparr>, b)"
  using assms by (simp add: instantiate_def destructure_def BrowserNavigator_def)

lemma instantiate_fallback:
  assumes "isPageReload env"
    and "sessionStorage b k = None \<or> sessionStorage b k = Some [] \<or>
      (\<exists>t. sessionStorage b k = Some t \<and>
         (JSON_parse env t = None \<or> JSON_parse env t = Some JNull \<or>
          (\<exists>v. JSON_parse env t = Some v \<and>
             \<not> accepts env (property ''history'' v) (property ''index'' v) opts)))"
  shows "fst (instantiate env k opts b) = createBrowserNavigatorFromLocation env opts"
  using assms
  by (auto simp: instantiate_def destructure_def BrowserNavigator_def)

lemma initNavigator_state:
  "index (fst (initNavigator env k opts b)) = index (fst (instantiate env k opts b)) \<and>
   history (fst (initNavigator env k opts b)) = history (fst (instantiate env k opts b))"
  by (simp add: initNavigator_def nav_on_def case_prod_unfold Let_def)

text \<open>
  Claim C4 does not hold of the code as worded: the stored text parses to an object with
  index 3 and the one-entry history \<open>/a\<close>, the constructor throws on the index outside
  the history, the \<open>try\<close> block catches that, and initNavigator returns the navigator
  derived from the location instead of the persisted index and history.
\<close>

theorem restore_parsed_snapshot_counterexample:
  "isPageReload demo_nav_env \<and>
   sessionStorage (demo_browser (Some ''{index:3,history:[/a]}'')) ''nav'' =
     Some ''{index:3,history:[/a]}'' \<and>
   JSON_parse demo_nav_env ''{index:3,history:[/a]}'' =
     Some (JObj [(''index'', JNum 3), (''history'', JArr [JStr ''/a''])]) \<and>
   index (fst (initNavigator demo_nav_env ''nav'' None
     (demo_browser (Some ''{index:3,history:[/a]}'')))) = Some (JNum 0) \<and>
   history (fst (initNavigator demo_nav_env ''nav'' None
     (demo_browser (Some ''{index:3,history:[/a]}'')))) = Some (JArr [JStr ''/home''])"
  by (simp add: initNavigator_def instantiate_def destructure_def BrowserNavigator_def
      createBrowserNavigatorFromLocation_def nav_on_def demo_nav_env_def demo_browser_def
      demo_snapshots_def Let_def)

text \<open>
  Claim C4 as amended. On a page reload, when the text stored under the key is not
  empty, \<open>JSON.parse\<close> returns a value for it that is not \<open>null\<close>, and the constructor
  of BrowserNavigator accepts the history and the index read from that value, each of
  them \<open>undefined\<close> when the value has no such field, then instantiate and initNavigator
  return the navigator holding exactly that index and history, and the location plays no
  part in it. When nothing or the empty text is stored under the key, when \<open>JSON.parse\<close>
  throws or returns \<open>null\<close>, and when the constructor throws, they return the navigator
  derived from the current location, and do not fail.
\<close>

theorem instantiate_restores_what_the_constructor_accepts:
  "(isPageReload env \<and> sessionStorage b k = Some raw \<and> raw \<noteq> [] \<and>
    JSON_parse env raw = Some v \<and> v \<noteq> JNull \<and>
    accepts env (property ''history'' v) (property ''index'' v) opts \<longrightarrow>
      instantiate env k opts b =
        (\<lparr>index = property ''index'' v, history = property ''history'' v, options = opts,
          subscribed = []\<rparr>, b) \<and>
      index (fst (initNavigator env k opts b)) = property ''index'' v \<and>
      history (fst (initNavigator env k opts b)) = property ''history'' v) \<and>
   (isPageReload env \<and>
    (sessionStorage b k = None \<or> sessionStorage b k = Some [] \<or>
     (\<exists>t. sessionStorage b k = Some t \<and>
        (JSON_parse env t = None \<or> JSON_parse env t = Some JNull \<or>
         (\<exists>u. JSON_parse env t = Some u \<and>
            \<not> accepts env (property ''history'' u) (property ''index'' u) opts)))) \<longrightarrow>
      fst (instantiate env k opts b) = createBrowserNavigatorFromLocation env opts \<and>
      index (fst (initNavigator env k opts b)) = fst (fromLocation env opts) \<and>
      history (fst (initNavigator env k opts b)) = snd (fromLocation env opts))"
proof (intro conjI impI)
  assume a: "isPageReload env \<and> sessionStorage b k = Some raw \<and> raw \<noteq> [] \<and>
    JSON_parse env raw = Some v \<and> v \<noteq> JNull \<and>
    accepts env (property ''history'' v) (property ''index'' v) opts"
  then show r: "instantiate env k opts b =
      (\<lparr>index = property ''index'' v, history = property ''history'' v, options = opts,
        subscribed = []\<rparr>, b)"
    by (simp add: instantiate_restored)
  show "index (fst (initNavigator env k opts b)) = property ''index'' v"
    using initNavigator_state [of env k opts b] r by simp
  show "history (fst (initNavigator env k opts b)) = property ''history'' v"
    using initNavigator_state [of env k opts b] r by simp
next
  assume a: "isPageReload env \<and>
    (sessionStorage b k = None \<or> sessionStorage b k = Some [] \<or>
     (\<exists>t. sessionStorage b k = Some t \<and>
        (JSON_parse env t = None \<or> JSON_parse env t = Some JNull \<or>
         (\<exists>u. JSON_parse env t = Some u \<and>
            \<not> accepts env (property ''history'' u) (property ''index'' u) opts))))"
  then show f: "fst (instantiate env k opts b) = createBrowserNavigatorFromLocation env opts"
    by (intro instantiate_fallback) blast+
  show "index (fst (initNavigator env k opts b)) = fst (fromLocation env opts)"
    using initNavigator_state [of env k opts b] f
    by (simp add: createBrowserNavigatorFromLocation_def)
  show "history (fst (initNavigator env k opts b)) = snd (fromLocation env opts)"
    using initNavigator_state [of env k opts b] f
    by (simp add: createBrowserNavigatorFromLocation_def)
qed

text \<open>
  A full snapshot is restored, and so is one without an index, the index then being
  undefined. A text that does not parse, nothing stored and the text \<open>null\<close> all
  give the entry \<open>/home\<close> of the location.
\<close>

theorem instantiate_restores_what_the_constructor_accepts_witness:
  "instantiate demo_nav_env ''nav'' None (demo_browser (Some ''{index:1,history:[/a,/b,/c]}'')) =
     (\<lparr>index = Some (JNum 1), history = Some (JArr [JStr ''/a'', JStr ''/b'', JStr ''/c'']),
       options = None, subscribed = []\<rparr>,
      demo_browser (Some ''{index:1,history:[/a,/b,/c]}'')) \<and>
   index (fst (initNavigator demo_nav_env ''nav'' None
     (demo_browser (Some ''{history:[/a,/b]}'')))) = None \<and>
   history (fst (initNavigator demo_nav_env ''nav'' None
     (demo_browser (Some ''{history:[/a,/b]}'')))) = Some (JArr [JStr ''/a'', JStr ''/b'']) \<and>
   history (fst (initNavigator demo_nav_env ''nav'' None (demo_browser (Some ''{index:'')))) =
     Some (JArr [JStr ''/home'']) \<and>
   history (fst (initNavigator demo_nav_env ''nav'' None (demo_browser None))) =
     Some (JArr [JStr ''/home'']) \<and>
   history (fst (initNavigator demo_nav_env ''nav'' None (demo_browser (Some ''null'')))) =
     Some (JArr [JStr ''/home''])"
proof -
  have r: "isPageReload demo_nav_env" by (simp add: demo_nav_env_def)
  have p1: "JSON_parse demo_nav_env ''{index:1,history:[/a,/b,/c]}'' =
      Some (JObj [(''index'', JNum 1),
        (''history'', JArr [JStr ''/a'', JStr ''/b'', JStr ''/c''])])"
    by (simp add: demo_nav_env_def demo_snapshots_def)
  have p2: "JSON_parse demo_nav_env ''{index:'' = None"
    by (simp add: demo_nav_env_def demo_snapshots_def)
  have p3: "JSON_parse demo_nav_env ''{history:[/a,/b]}'' =
      Some (JObj [(''history'', JArr [JStr ''/a'', JStr ''/b''])])"
    by (simp add: demo_nav_env_def demo_snapshots_def)
  have p4: "JSON_parse demo_nav_env ''null'' = Some JNull"
    by (simp add: demo_nav_env_def demo_snapshots_def)
  have a: "accepts demo_nav_env h i None = demo_accepts h i None" for h i
    by (simp add: demo_nav_env_def)
  have s: "sessionStorage (demo_browser t) ''nav'' = t" for t
    by (simp add: demo_browser_def)
  have l: "fromLocation demo_nav_env None = (Some (JNum 0), Some (JArr [JStr ''/home'']))"
    by (simp add: demo_nav_env_def)
  show ?thesis
    using instantiate_restores_what_the_constructor_accepts
      [of demo_nav_env "demo_browser (Some ''{index:1,history:[/a,/b,/c]}'')" "''nav''"
        "''{index:1,history:[/a,/b,/c]}''"
        "JObj [(''index'', JNum 1), (''history'', JArr [JStr ''/a'', JStr ''/b'', JStr ''/c''])]"
        None]
      instantiate_restores_what_the_constructor_accepts
      [of demo_nav_env "demo_browser (Some ''{history:[/a,/b]}'')" "''nav''"
        "''{history:[/a,/b]}''" "JObj [(''history'', JArr [JStr ''/a'', JStr ''/b''])]" None]
      instantiate_restores_what_the_constructor_accepts
      [of demo_nav_env "demo_browser (Some ''{index:'')" "''nav''" "[]" JNull None]
      instantiate_restores_what_the_constructor_accepts
      [of demo_nav_env "demo_browser None" "''nav''" "[]" JNull None]
      instantiate_restores_what_the_constructor_accepts
      [of demo_nav_env "demo_browser (Some ''null'')" "''nav''" "[]" JNull None]
    by (simp add: r p1 p2 p3 p4 a s l)
qed

lemma instantiate_new_navigator:
  "subscribed (fst (instantiate env k opts b)) = [] \<and>
   setItem_calls (snd (instantiate env k opts b)) = setItem_calls b"
  by (simp add: instantiate_def BrowserNavigator_def createBrowserNavigatorFromLocation_def
      split: option.splits prod.splits)

lemma saveState_fields:
  "sessionStorage (saveState env k nav b) k = Some (JSON_stringify env (index nav, history nav))"
  "setItem_calls (saveState env k nav b) =
     setItem_calls b @ [(k, JSON_stringify env (index nav, history nav))]"
  by (simp_all add: saveState_def Let_def)

lemma call_app_listeners:
  "filter is_saver ls = [] \<Longrightarrow> fold (call_listener env nav) ls b = b"
proof (induction ls)
  case Nil
  then show ?case by simp
next
  case (Cons l ls)
  then show ?case by (cases l) (simp_all split: if_splits)
qed

lemma call_one_saver:
  "filter is_saver ls = [SaveState k] \<Longrightarrow>
   fold (call_listener env nav) ls b = saveState env k nav b"
proof (induction ls arbitrary: b)
  case Nil
  then show ?case by simp
next
  case (Cons l ls)
  show ?case
  proof (cases l)
    case (SaveState k')
    with Cons.prems have "k' = k" "filter is_saver ls = []" by simp_all
    with SaveState show ?thesis by (simp add: call_app_listeners)
  next
    case (AppListener n)
    with Cons show ?thesis by simp
  qed
qed

lemma nav_run_saves:
  assumes "filter is_saver (map snd (filter (\<lambda>s. fst s = ''change'') (subscribed nav))) =
             [SaveState k]"
    and "sessionStorage b k = Some (JSON_stringify env (index nav, history nav))"
  shows "sessionStorage (snd (nav_run env acts (nav, b))) k =
           Some (JSON_stringify env (index (fst (nav_run env acts (nav, b))),
                                     history (fst (nav_run env acts (nav, b))))) \<and>
         setItem_calls (snd (nav_run env acts (nav, b))) =
           setItem_calls b @ map (\<lambda>s. (k, JSON_stringify env s)) (changes acts)"
  using assms
proof (induction acts arbitrary: nav b)
  case Nil
  then show ?case by (simp add: nav_run_def)
next
  case (Cons a acts)
  show ?case
  proof (cases a)
    case (Change i h)
    let ?nav = "nav\<lparr>index := i, history := h\<rparr>"
    have emit: "nav_emit env ''change'' ?nav b = saveState env k ?nav b"
      unfolding nav_emit_def using Cons.prems(1) by (simp add: call_one_saver)
    have step: "nav_step env (Change i h) (nav, b) = (?nav, saveState env k ?nav b)"
      using emit by (simp add: Let_def)
    have "filter is_saver (map snd (filter (\<lambda>s. fst s = ''change'') (subscribed ?nav))) =
        [SaveState k]"
      using Cons.prems(1) by simp
    moreover have "sessionStorage (saveState env k ?nav b) k =
        Some (JSON_stringify env (index ?nav, history ?nav))"
      by (rule saveState_fields)
    ultimately show ?thesis
      using Cons.IH [of ?nav "saveState env k ?nav b"] Change
      by (simp add: nav_run_def step saveState_fields del: nav_step.simps)
  next
    case (Subscribe event n)
    let ?nav = "nav_on event (AppListener n) nav"
    have "filter is_saver (map snd (filter (\<lambda>s. fst s = ''change'') (subscribed ?nav))) =
        [SaveState k]"
      using Cons.prems(1) by (simp add: nav_on_def)
    moreover have "sessionStorage b k = Some (JSON_stringify env (index ?nav, history ?nav))"
      using Cons.prems(2) by (simp add: nav_on_def)
    ultimately show ?thesis
      using Cons.IH [of ?nav b] Subscribe by (simp add: nav_run_def)
  qed
qed

text \<open>
  Claim C9. initNavigator writes the snapshot of the navigator it returns to the session
  storage under the key, once. From then on, through any changes of the navigator and
  any further listeners the application registers, every \<open>change\<close> event makes one
  more write of the snapshot current at that event, so that the text stored under the key
  is always the serialization of the navigator's current index and history.
\<close>

theorem initNavigator_saves_every_change:
  "setItem_calls (snd (initNavigator env k opts b)) =
     setItem_calls b @
       [(k, JSON_stringify env (index (fst (initNavigator env k opts b)),
                                history (fst (initNavigator env k opts b))))] \<and>
   (\<forall>acts.
      sessionStorage (snd (nav_run env acts (initNavigator env k opts b))) k =
        Some (JSON_stringify env
          (index (fst (nav_run env acts (initNavigator env k opts b))),
           history (fst (nav_run env acts (initNavigator env k opts b))))) \<and>
      setItem_calls (snd (nav_run env acts (initNavigator env k opts b))) =
        setItem_calls (snd (initNavigator env k opts b)) @
          map (\<lambda>s. (k, JSON_stringify env s)) (changes acts))"
proof -
  obtain nav0 b0 where i: "instantiate env k opts b = (nav0, b0)"
    by (cases "instantiate env k opts b")
  let ?nav = "nav_on ''change'' (SaveState k) nav0"
  have init: "initNavigator env k opts b = (?nav, saveState env k ?nav b0)"
    by (simp add: initNavigator_def i Let_def)
  from instantiate_new_navigator [of env k opts b] i
  have new: "subscribed nav0 = []" "setItem_calls b0 = setItem_calls b"
    by simp_all
  have "filter is_saver (map snd (filter (\<lambda>s. fst s = ''change'') (subscribed ?nav))) =
      [SaveState k]"
    by (simp add: nav_on_def new)
  moreover have "sessionStorage (saveState env k ?nav b0) k =
      Some (JSON_stringify env (index ?nav, history ?nav))"
    by (rule saveState_fields)
  ultimately have "sessionStorage (snd (nav_run env acts (?nav, saveState env k ?nav b0))) k =
      Some (JSON_stringify env
        (index (fst (nav_run env acts (?nav, saveState env k ?nav b0))),
         history (fst (nav_run env acts (?nav, saveState env k ?nav b0))))) \<and>
    setItem_calls (snd (nav_run env acts (?nav, saveState env k ?nav b0))) =
      setItem_calls (saveState env k ?nav b0) @
        map (\<lambda>s. (k, JSON_stringify env s)) (changes acts)" for acts
    by (rule nav_run_saves)
  then show ?thesis
    by (simp add: init saveState_fields new)
qed

theorem initNavigator_saves_every_change_witness:
  "setItem_calls (snd (initNavigator demo_nav_env ''nav'' None
     (demo_browser (Some ''{index:1,history:[/a,/b,/c]}'')))) =
     [(''nav'', ''{index:1,history:[/a,/b,/c]}'')] \<and>
   setItem_calls (snd (nav_run demo_nav_env
     [Change (Some (JNum 2)) (Some (JArr [JStr ''/a'', JStr ''/b'', JStr ''/c''])),
      Subscribe ''change'' 7,
      Change (Some (JNum 1)) (Some (JArr [JStr ''/a'', JStr ''/d'']))]
     (initNavigator demo_nav_env ''nav'' None
        (demo_browser (Some ''{index:1,history:[/a,/b,/c]}''))))) =
     [(''nav'', ''{index:1,history:[/a,/b,/c]}''), (''nav'', ''{index:2,history:[/a,/b,/c]}''),
      (''nav'', ''{index:1,history:[/a,/d]}'')] \<and>
   sessionStorage (snd (nav_run demo_nav_env
     [Change (Some (JNum 2)) (Some (JArr [JStr ''/a'', JStr ''/b'', JStr ''/c''])),
      Subscribe ''change'' 7,
      Change (Some (JNum 1)) (Some (JArr [JStr ''/a'', JStr ''/d'']))]
     (initNavigator demo_nav_env ''nav'' None
        (demo_browser (Some ''{index:1,history:[/a,/b,/c]}''))))) ''nav'' =
     Some ''{index:1,history:[/a,/d]}''"
proof -
  let ?b = "demo_browser (Some ''{index:1,history:[/a,/b,/c]}'')"
  let ?abc = "Some (JArr [JStr ''/a'', JStr ''/b'', JStr ''/c''])"
  let ?ad = "Some (JArr [JStr ''/a'', JStr ''/d''])"
  let ?acts = "[Change (Some (JNum 2)) ?abc, Subscribe ''change'' 7,
    Change (Some (JNum 1)) ?ad]"
  have init: "fst (initNavigator demo_nav_env ''nav'' None ?b) =
      \<lparr>index = Some (JNum 1), history = ?abc, options = None,
       subscribed = [(''change'', SaveState ''nav'')]\<rparr>"
    by (simp add: initNavigator_def instantiate_def destructure_def BrowserNavigator_def
        nav_on_def demo_nav_env_def demo_browser_def demo_snapshots_def Let_def)
  have final: "fst (nav_run demo_nav_env ?acts (initNavigator demo_nav_env ''nav'' None ?b)) =
      \<lparr>index = Some (JNum 1), history = ?ad, options = None,
       subscribed = [(''change'', SaveState ''nav''), (''change'', AppListener 7)]\<rparr>"
    using init
    by (cases "initNavigator demo_nav_env ''nav'' None ?b")
      (simp add: nav_run_def nav_on_def Let_def)
  have s: "JSON_stringify demo_nav_env (Some (JNum 1), ?abc) = ''{index:1,history:[/a,/b,/c]}''"
    "JSON_stringify demo_nav_env (Some (JNum 2), ?abc) = ''{index:2,history:[/a,/b,/c]}''"
    "JSON_stringify demo_nav_env (Some (JNum 1), ?ad) = ''{index:1,history:[/a,/d]}''"
    by (simp_all add: demo_nav_env_def demo_snapshots_def)
  have c: "setItem_calls ?b = []" by (simp add: demo_browser_def)
  show ?thesis
    using initNavigator_saves_every_change [of demo_nav_env "''nav''" None ?b]
    by (simp add: init final s c)
qed

section \<open>Properties of the event emitter singleton\<close>

lemma last_listener: "count e \<noteq> 0 \<and> count (off event l e) = 0 \<longleftrightarrow> e = [(event, l)]"
proof (cases e)
  case Nil
  then show ?thesis by (simp add: count_def off_def)
next
  case (Cons x xs)
  then show ?thesis by (auto simp: count_def off_def)
qed

lemma rewired_off_last:
  "cached s = Some e \<Longrightarrow> count e \<noteq> 0 \<Longrightarrow> count (off event l e) = 0 \<Longrightarrow>
   rewired_off event l s = s\<lparr>cached := None, cleanups := Suc (cleanups s)\<rparr>"
  by (simp add: rewired_off_def reset_def Let_def)

lemma rewired_off_other:
  "cached s = Some e \<Longrightarrow> \<not> (count e \<noteq> 0 \<and> count (off event l e) = 0) \<Longrightarrow>
   rewired_off event l s = s\<lparr>cached := Some (off event l e)\<rparr>"
  by (auto simp: rewired_off_def Let_def)

text \<open>
  Claim C5. A call of the rewired \<open>off\<close> on the emitter the singleton holds resets the
  singleton, invoking the cleanup once, exactly when the count of live listeners was not
  zero before the call and is zero after it, that is when the listener removed was the
  last one. After the reset the next access creates a new, empty emitter. In every other
  case, the count staying above zero or being zero already, no cleanup is invoked, the
  emitter stays cached and the next access returns it without creating one.
\<close>

theorem rewired_off_resets_on_last_listener:
  "cached s = Some e \<Longrightarrow>
   (count e \<noteq> 0 \<and> count (off event l e) = 0 \<longleftrightarrow> e = [(event, l)]) \<and>
   (count e \<noteq> 0 \<and> count (off event l e) = 0 \<longrightarrow>
      rewired_off event l s = s\<lparr>cached := None, cleanups := Suc (cleanups s)\<rparr> \<and>
      miniAppsEventEmitter (rewired_off event l s) =
        ([], s\<lparr>cached := Some [], created := Suc (created s),
               cleanups := Suc (cleanups s)\<rparr>)) \<and>
   (\<not> (count e \<noteq> 0 \<and> count (off event l e) = 0) \<longrightarrow>
      rewired_off event l s = s\<lparr>cached := Some (off event l e)\<rparr> \<and>
      cleanups (rewired_off event l s) = cleanups s \<and>
      miniAppsEventEmitter (rewired_off event l s) =
        (off event l e, rewired_off event l s))"
proof -
  assume c: "cached s = Some e"
  let ?last = "count e \<noteq> 0 \<and> count (off event l e) = 0"
  have 1: "?last \<longleftrightarrow> e = [(event, l)]"
    by (rule last_listener)
  have 2: "?last \<longrightarrow>
      rewired_off event l s = s\<lparr>cached := None, cleanups := Suc (cleanups s)\<rparr> \<and>
      miniAppsEventEmitter (rewired_off event l s) =
        ([], s\<lparr>cached := Some [], created := Suc (created s),
               cleanups := Suc (cleanups s)\<rparr>)"
  proof
    assume ?last
    with c have "rewired_off event l s = s\<lparr>cached := None, cleanups := Suc (cleanups s)\<rparr>"
      by (simp add: rewired_off_last)
    then show "rewired_off event l s = s\<lparr>cached := None, cleanups := Suc (cleanups s)\<rparr> \<and>
      miniAppsEventEmitter (rewired_off event l s) =
        ([], s\<lparr>cached := Some [], created := Suc (created s),
               cleanups := Suc (cleanups s)\<rparr>)"
      by (simp add: miniAppsEventEmitter_def get_def)
  qed
  have 3: "\<not> ?last \<longrightarrow>
      rewired_off event l s = s\<lparr>cached := Some (off event l e)\<rparr> \<and>
      cleanups (rewired_off event l s) = cleanups s \<and>
      miniAppsEventEmitter (rewired_off event l s) =
        (off event l e, rewired_off event l s)"
  proof
    assume "\<not> ?last"
    with c have "rewired_off event l s = s\<lparr>cached := Some (off event l e)\<rparr>"
      by (rule rewired_off_other)
    then show "rewired_off event l s = s\<lparr>cached := Some (off event l e)\<rparr> \<and>
      cleanups (rewired_off event l s) = cleanups s \<and>
      miniAppsEventEmitter (rewired_off event l s) =
        (off event l e, rewired_off event l s)"
      by (simp add: miniAppsEventEmitter_def get_def)
  qed
  from 1 2 3 show ?thesis by (intro conjI)
qed

text \<open>
  Two listeners are added and removed again: removing the first leaves the emitter in
  place, removing the second resets the singleton, and the next access creates the
  second emitter. Removing a listener that was never added from an empty emitter resets
  nothing.
\<close>

theorem rewired_off_resets_on_last_listener_witness:
  "rewired_off ''theme_changed'' 1
     (singleton_on ''viewport_changed'' 2 (singleton_on ''theme_changed'' 1 demo_singleton)) =
     \<lparr>cached = Some [(''viewport_changed'', 2)], created = 1, cleanups = 0\<rparr> \<and>
   rewired_off ''viewport_changed'' 2
     \<lparr>cached = Some [(''viewport_changed'', 2)], created = 1, cleanups = 0\<rparr> =
     \<lparr>cached = None, created = 1, cleanups = 1\<rparr> \<and>
   miniAppsEventEmitter (rewired_off ''viewport_changed'' 2
     \<lparr>cached = Some [(''viewport_changed'', 2)], created = 1, cleanups = 0\<rparr>) =
     ([], \<lparr>cached = Some [], created = 2, cleanups = 1\<rparr>) \<and>
   rewired_off ''theme_changed'' 1 \<lparr>cached = Some [], created = 2, cleanups = 1\<rparr> =
     \<lparr>cached = Some [], created = 2, cleanups = 1\<rparr>"
proof -
  let ?s2 = "singleton_on ''viewport_changed'' 2 (singleton_on ''theme_changed'' 1 demo_singleton)"
  have s2: "?s2 = \<lparr>cached = Some [(''theme_changed'', 1), (''viewport_changed'', 2)],
      created = 1, cleanups = 0\<rparr>"
    by (simp add: singleton_on_def miniAppsEventEmitter_def get_def on_def demo_singleton_def
        Let_def)
  have c2: "cached ?s2 = Some [(''theme_changed'', 1), (''viewport_changed'', 2)]"
    unfolding s2 by simp
  have c1: "cached \<lparr>cached = Some [(''viewport_changed'', 2)], created = 1, cleanups = 0\<rparr> =
      Some [(''viewport_changed'', 2)]"
    by simp
  have c0: "cached \<lparr>cached = Some [], created = 2, cleanups = 1\<rparr> = Some []"
    by simp
  show ?thesis
    using rewired_off_resets_on_last_listener [OF c2, of "''theme_changed''" 1]
      rewired_off_resets_on_last_listener [OF c1, of "''viewport_changed''" 2]
      rewired_off_resets_on_last_listener [OF c0, of "''theme_changed''" 1]
    unfolding s2 by (auto simp: count_def off_def numeral_2_eq_2)
qed

end
